theory Spec2Isabelle
  imports Main
begin

unbundle bit_operations_syntax

section \<open>The USB selector of main.py: data model\<close>

text \<open>
  The controller drives twelve GPIO lines and one MCP23017 I/O expander. A line is named
  by its GP number, as in \<^verbatim>\<open>Pin(19, Pin.OUT)\<close>; its level is the integer last
  passed to \<^verbatim>\<open>Pin.value\<close>. The expander is its register file together with the
  sequence of register writes sent over the bus. Python integers are \<open>int\<close>.
\<close>

record selector =
  pins :: "nat \<Rightarrow> int"
  mcp_regs :: "int \<Rightarrow> int"
  i2c_writes :: "(int \<times> int) list"
  selected :: int
  last_sw_state :: int

type_synonym step = "selector \<Rightarrow> selector"

text \<open>A method body is the list of its atomic effects, in program order.\<close>

fun run :: "step list \<Rightarrow> selector \<Rightarrow> selector" where
  "run [] st = st"
| "run (f # fs) st = run fs (f st)"

text \<open>Every state the hardware passes through while the list is executed.\<close>

fun trace :: "step list \<Rightarrow> selector \<Rightarrow> selector list" where
  "trace [] st = [st]"
| "trace (f # fs) st = st # trace fs (f st)"

definition pin_value :: "nat \<Rightarrow> int \<Rightarrow> step" where
  "pin_value p v st = st\<lparr>pins := (pins st)(p := v)\<rparr>"

definition set_selected :: "int \<Rightarrow> step" where
  "set_selected i st = st\<lparr>selected := i\<rparr>"

definition set_last_sw_state :: "int \<Rightarrow> step" where
  "set_last_sw_state v st = st\<lparr>last_sw_state := v\<rparr>"

text \<open>\<^verbatim>\<open>utime.sleep_ms\<close>: time is not part of the state.\<close>

definition sleep_ms :: "nat \<Rightarrow> step" where
  "sleep_ms n st = st"

subsection \<open>MCP23017\<close>

definition IODIRA :: int where "IODIRA = 0x00"
definition IODIRB :: int where "IODIRB = 0x01"
definition GPINTENA :: int where "GPINTENA = 0x04"
definition DEFVALA :: int where "DEFVALA = 0x06"
definition INTCONA :: int where "INTCONA = 0x08"
definition IOCON :: int where "IOCON = 0x0A"
definition GPPUA :: int where "GPPUA = 0x0C"
definition OLATB :: int where "OLATB = 0x15"

definition write8 :: "int \<Rightarrow> int \<Rightarrow> step" where
  "write8 reg val st =
     st\<lparr>mcp_regs := (mcp_regs st)(reg := val), i2c_writes := i2c_writes st @ [(reg, val)]\<rparr>"

text \<open>The constructor's register writes, in order. Its closing \<^verbatim>\<open>read_gpioa\<close> only
  reads.\<close>

definition MCP23017_init :: "step list" where
  "MCP23017_init =
     [write8 IOCON 0x20,
      write8 IODIRA 0xFF,
      write8 GPPUA 0xFF,
      write8 IODIRB 0x00,
      write8 OLATB 0xFF,
      write8 INTCONA 0x00,
      write8 DEFVALA 0x00,
      write8 GPINTENA 0xFF]"

definition set_led_only :: "int \<Rightarrow> step" where
  "set_led_only idx st =
     (let mask = (if idx < 0 then 0xFF else 0xFF AND NOT (push_bit (nat idx) 1))
      in write8 OLATB mask st)"

text \<open>The byte currently driven on the LED bank.\<close>

definition olatb :: "selector \<Rightarrow> int" where
  "olatb st = mcp_regs st OLATB"

subsection \<open>PI3USB14\<close>

record pi3usb14 =
  en_n_pin :: nat
  s1_pin :: nat
  s0_pin :: nat

definition PI3USB14_select :: "pi3usb14 \<Rightarrow> int \<Rightarrow> step list" where
  "PI3USB14_select m port0123 =
     (let p = max 0 (min 3 port0123)
      in [pin_value (s0_pin m) (drop_bit 0 p AND 1),
          pin_value (s1_pin m) (drop_bit 1 p AND 1)])"

definition PI3USB14_enable :: "pi3usb14 \<Rightarrow> step list" where
  "PI3USB14_enable m = [pin_value (en_n_pin m) 0]"

definition PI3USB14_disable :: "pi3usb14 \<Rightarrow> step list" where
  "PI3USB14_disable m = [pin_value (en_n_pin m) 1]"

definition PI3USB14_init :: "pi3usb14 \<Rightarrow> step list" where
  "PI3USB14_init m =
     [pin_value (en_n_pin m) 1, pin_value (s1_pin m) 1, pin_value (s0_pin m) 1]
     @ PI3USB14_disable m"

subsection \<open>TS3USB30\<close>

record ts3usb30 =
  oe_pin :: nat
  s_pin :: nat

definition TS3USB30_init :: "ts3usb30 \<Rightarrow> step list" where
  "TS3USB30_init t = [pin_value (oe_pin t) 1, pin_value (s_pin t) 0]"

definition TS3USB30_route_to_A :: "ts3usb30 \<Rightarrow> step list" where
  "TS3USB30_route_to_A t = [pin_value (s_pin t) 1]"

definition TS3USB30_route_to_B :: "ts3usb30 \<Rightarrow> step list" where
  "TS3USB30_route_to_B t = [pin_value (s_pin t) 0]"

definition TS3USB30_enable :: "ts3usb30 \<Rightarrow> step list" where
  "TS3USB30_enable t = [pin_value (oe_pin t) 0]"

definition TS3USB30_disable :: "ts3usb30 \<Rightarrow> step list" where
  "TS3USB30_disable t = [pin_value (oe_pin t) 1]"

subsection \<open>74HC137\<close>

record hc137_dev =
  e1_n :: nat
  a2 :: nat
  a1 :: nat
  a0 :: nat

definition HC137_all_off :: "hc137_dev \<Rightarrow> step list" where
  "HC137_all_off h = [pin_value (e1_n h) 1]"

definition HC137_init :: "hc137_dev \<Rightarrow> step list" where
  "HC137_init h =
     [pin_value (e1_n h) 1, pin_value (a2 h) 1, pin_value (a1 h) 1, pin_value (a0 h) 1]
     @ HC137_all_off h"

definition HC137_select_addr :: "hc137_dev \<Rightarrow> int \<Rightarrow> step list" where
  "HC137_select_addr h addr =
     (let a = max 0 (min 7 addr)
      in [pin_value (a0 h) (drop_bit 0 a AND 1),
          pin_value (a1 h) (drop_bit 1 a AND 1),
          pin_value (a2 h) (drop_bit 2 a AND 1)])"

definition HC137_enable :: "hc137_dev \<Rightarrow> step list" where
  "HC137_enable h = [pin_value (e1_n h) 0]"

definition HC137_disable :: "hc137_dev \<Rightarrow> step list" where
  "HC137_disable h = [pin_value (e1_n h) 1]"

subsection \<open>PC table\<close>

record PC =
  index :: int
  sw_bit :: nat
  led_bit :: nat
  mux_side :: string
  mux_sel :: int
  ts3_side :: string
  hc_addr :: int

definition pcs :: "PC list" where
  "pcs =
    [\<lparr>index = 0, sw_bit = 7, led_bit = 0, mux_side = ''B'', mux_sel = 3, ts3_side = ''B'', hc_addr = 0\<rparr>,
     \<lparr>index = 1, sw_bit = 6, led_bit = 1, mux_side = ''B'', mux_sel = 2, ts3_side = ''B'', hc_addr = 1\<rparr>,
     \<lparr>index = 2, sw_bit = 5, led_bit = 2, mux_side = ''B'', mux_sel = 1, ts3_side = ''B'', hc_addr = 2\<rparr>,
     \<lparr>index = 3, sw_bit = 4, led_bit = 3, mux_side = ''B'', mux_sel = 0, ts3_side = ''B'', hc_addr = 3\<rparr>,
     \<lparr>index = 4, sw_bit = 3, led_bit = 4, mux_side = ''A'', mux_sel = 3, ts3_side = ''A'', hc_addr = 4\<rparr>,
     \<lparr>index = 5, sw_bit = 2, led_bit = 5, mux_side = ''A'', mux_sel = 2, ts3_side = ''A'', hc_addr = 5\<rparr>,
     \<lparr>index = 6, sw_bit = 1, led_bit = 6, mux_side = ''A'', mux_sel = 1, ts3_side = ''A'', hc_addr = 6\<rparr>,
     \<lparr>index = 7, sw_bit = 0, led_bit = 7, mux_side = ''A'', mux_sel = 0, ts3_side = ''A'', hc_addr = 7\<rparr>]"

text \<open>The dict comprehension \<^verbatim>\<open>{pc.sw_bit: pc.index for pc in self.pcs}\<close>: a later
  entry with the same key replaces an earlier one.\<close>

definition swbit_to_index :: "nat \<rightharpoonup> int" where
  "swbit_to_index = foldl (\<lambda>m pc. m(sw_bit pc \<mapsto> index pc)) Map.empty pcs"

subsection \<open>Usb8Selector\<close>

definition ts3 :: ts3usb30 where
  "ts3 = \<lparr>oe_pin = 0, s_pin = 1\<rparr>"

definition muxA :: pi3usb14 where
  "muxA = \<lparr>en_n_pin = 2, s1_pin = 3, s0_pin = 4\<rparr>"

definition muxB :: pi3usb14 where
  "muxB = \<lparr>en_n_pin = 6, s1_pin = 7, s0_pin = 8\<rparr>"

definition hc137 :: hc137_dev where
  "hc137 = \<lparr>e1_n = 19, a2 = 20, a1 = 21, a0 = 22\<rparr>"

definition disconnect_all_steps :: "step list" where
  "disconnect_all_steps =
     TS3USB30_disable ts3 @ PI3USB14_disable muxA @ PI3USB14_disable muxB
     @ HC137_disable hc137
     @ [set_selected (- 1)]"

text \<open>\<^verbatim>\<open>_route_to_pc\<close>, one entry per pin write; the closing debug print only
  prints.\<close>

definition route_to_pc_steps :: "PC \<Rightarrow> step list" where
  "route_to_pc_steps pc =
     TS3USB30_disable ts3 @ PI3USB14_disable muxA @ PI3USB14_disable muxB
     @ HC137_disable hc137
     @ HC137_select_addr hc137 (hc_addr pc)
     @ (if mux_side pc = ''A''
        then PI3USB14_select muxA (mux_sel pc) @ PI3USB14_enable muxA
             @ PI3USB14_disable muxB @ TS3USB30_route_to_A ts3
        else PI3USB14_select muxB (mux_sel pc) @ PI3USB14_enable muxB
             @ PI3USB14_disable muxA @ TS3USB30_route_to_B ts3)
     @ HC137_enable hc137
     @ [sleep_ms 2]
     @ TS3USB30_enable ts3
     @ [set_selected (index pc)]"

definition update_leds :: step where
  "update_leds st = set_led_only (selected st) st"

text \<open>\<^verbatim>\<open>select_pc\<close>: the branch taken depends on the state at the call.\<close>

definition select_pc_steps :: "int \<Rightarrow> selector \<Rightarrow> step list" where
  "select_pc_steps idx st =
     (if \<not> (0 \<le> idx \<and> idx < int (length pcs)) then disconnect_all_steps
      else if idx \<noteq> selected st then route_to_pc_steps (pcs ! nat idx)
      else [])
     @ [update_leds]"

definition disconnect_all :: step where
  "disconnect_all st = run disconnect_all_steps st"

definition route_to_pc :: "PC \<Rightarrow> step" where
  "route_to_pc pc st = run (route_to_pc_steps pc) st"

definition select_pc :: "int \<Rightarrow> step" where
  "select_pc idx st = run (select_pc_steps idx st) st"

definition disconnect_steps :: "step list" where
  "disconnect_steps = disconnect_all_steps @ [update_leds]"

definition disconnect :: step where
  "disconnect st = run disconnect_steps st"

text \<open>The constructor. \<open>gpioa\<close> is the byte read from the switch bank; \<open>boot\<close> is
  whatever the hardware held before.\<close>

definition Usb8Selector_init :: "int \<Rightarrow> selector \<Rightarrow> selector" where
  "Usb8Selector_init gpioa boot =
     run (TS3USB30_init ts3 @ PI3USB14_init muxA @ PI3USB14_init muxB @ HC137_init hc137
          @ MCP23017_init
          @ [set_selected (- 1), set_last_sw_state gpioa]
          @ disconnect_all_steps
          @ [update_leds]) boot"

text \<open>The scan \<^verbatim>\<open>for bit in range(7, -1, -1)\<close> of the interrupt handler, with its
  \<^verbatim>\<open>break\<close> after the first call of \<^verbatim>\<open>select_pc\<close>.\<close>

fun scan_bits :: "int \<Rightarrow> nat list \<Rightarrow> step" where
  "scan_bits rising [] st = st"
| "scan_bits rising (b # bs) st =
     (if rising AND push_bit b 1 \<noteq> 0
      then (case swbit_to_index b of
              Some idx \<Rightarrow> select_pc idx st
            | None \<Rightarrow> scan_bits rising bs st)
      else scan_bits rising bs st)"

text \<open>\<^verbatim>\<open>_on_mcp_int\<close>; \<open>gpioa\<close> is the byte that \<^verbatim>\<open>read_gpioa\<close> returns after the
  debounce delay. The delay itself and the unused \<^verbatim>\<open>pin\<close> argument leave no trace in
  the state. The early \<^verbatim>\<open>return\<close> on \<open>changed = 0\<close> skips the final assignment.\<close>

definition on_mcp_int :: "int \<Rightarrow> step" where
  "on_mcp_int gpioa st =
     (let state = gpioa;
          changed = last_sw_state st XOR state
      in if changed = 0 then st
         else let rising = (NOT (last_sw_state st) AND state) AND 0xFF;
                  st' = (if rising \<noteq> 0 then scan_bits rising (rev [0..<8]) st else st)
              in st'\<lparr>last_sw_state := state\<rparr>)"

section \<open>What the lines mean\<close>

text \<open>
  From the drivers' docstrings: the 74HC137 drives exactly the output selected by A2..A0
  low while \<^verbatim>\<open>~E1\<close> is low, and none while it is high; a PI3USB14 is enabled while
  \<^verbatim>\<open>~EN\<close> is low and connects the channel numbered by S1,S0; the TS3USB30 is enabled
  while OE is low and connects the A side when S is 1, the B side when S is 0.
\<close>

definition hc_enabled :: "selector \<Rightarrow> bool" where
  "hc_enabled st = (pins st (e1_n hc137) = 0)"

definition hc_disabled :: "selector \<Rightarrow> bool" where
  "hc_disabled st = (pins st (e1_n hc137) = 1)"

definition hc_lines :: "selector \<Rightarrow> int \<times> int \<times> int" where
  "hc_lines st = (pins st (a2 hc137), pins st (a1 hc137), pins st (a0 hc137))"

definition hc_address :: "selector \<Rightarrow> int" where
  "hc_address st = 4 * pins st (a2 hc137) + 2 * pins st (a1 hc137) + pins st (a0 hc137)"

definition mux_enabled :: "pi3usb14 \<Rightarrow> selector \<Rightarrow> bool" where
  "mux_enabled m st = (pins st (en_n_pin m) = 0)"

definition mux_disabled :: "pi3usb14 \<Rightarrow> selector \<Rightarrow> bool" where
  "mux_disabled m st = (pins st (en_n_pin m) = 1)"

definition mux_value :: "pi3usb14 \<Rightarrow> selector \<Rightarrow> int" where
  "mux_value m st = 2 * pins st (s1_pin m) + pins st (s0_pin m)"

definition ts3_enabled :: "selector \<Rightarrow> bool" where
  "ts3_enabled st = (pins st (oe_pin ts3) = 0)"

definition ts3_disabled :: "selector \<Rightarrow> bool" where
  "ts3_disabled st = (pins st (oe_pin ts3) = 1)"

definition ts3_routes_to :: "string \<Rightarrow> selector \<Rightarrow> bool" where
  "ts3_routes_to side st = (pins st (s_pin ts3) = (if side = ''A'' then 1 else 0))"

definition all_disabled :: "selector \<Rightarrow> bool" where
  "all_disabled st =
     (ts3_disabled st \<and> mux_disabled muxA st \<and> mux_disabled muxB st \<and> hc_disabled st)"

definition valid_port :: "int \<Rightarrow> bool" where
  "valid_port p = (0 \<le> p \<and> p \<le> 7)"

text \<open>The supply line of port \<open>p\<close> is the decoder output at that port's address.\<close>

definition power_on :: "selector \<Rightarrow> int \<Rightarrow> bool" where
  "power_on st p = (hc_enabled st \<and> hc_address st = hc_addr (pcs ! nat p))"

subsection \<open>The route invariant\<close>

definition route_matches :: "PC \<Rightarrow> selector \<Rightarrow> bool" where
  "route_matches pc st =
     (let m = (if mux_side pc = ''A'' then muxA else muxB);
          other = (if mux_side pc = ''A'' then muxB else muxA)
      in hc_address st = hc_addr pc \<and> hc_lines st = (drop_bit 2 (hc_addr pc) AND 1,
             drop_bit 1 (hc_addr pc) AND 1, drop_bit 0 (hc_addr pc) AND 1)
         \<and> ts3_routes_to (ts3_side pc) st
         \<and> mux_value m st = mux_sel pc
         \<and> mux_enabled m st \<and> mux_disabled other st
         \<and> ts3_enabled st \<and> hc_enabled st)"

definition route_inv :: "selector \<Rightarrow> bool" where
  "route_inv st =
     (if valid_port (selected st) then route_matches (pcs ! nat (selected st)) st
      else selected st = - 1 \<and> all_disabled st)"

text \<open>The LED bank shows the selected port, active low.\<close>

definition led_inv :: "selector \<Rightarrow> bool" where
  "led_inv st =
     (olatb st = (if valid_port (selected st) then 0xFF - 2 ^ led_bit (pcs ! nat (selected st))
                  else 0xFF))"

text \<open>The states of the running program: the constructor's result, and whatever the
  public operations and the interrupt handler make of a state of the program.\<close>

inductive reachable :: "selector \<Rightarrow> bool" where
  reach_init: "reachable (Usb8Selector_init gpioa boot)"
| reach_select: "reachable st \<Longrightarrow> reachable (select_pc idx st)"
| reach_disconnect: "reachable st \<Longrightarrow> reachable (disconnect st)"
| reach_int: "reachable st \<Longrightarrow> reachable (on_mcp_int gpioa st)"

text \<open>A concrete power-up state, for evaluation.\<close>

definition boot0 :: selector where
  "boot0 = \<lparr>pins = (\<lambda>_. 0), mcp_regs = (\<lambda>_. 0), i2c_writes = [], selected = 0,
            last_sw_state = 0\<rparr>"

subsection \<open>Sequencing of the decoder\<close>

fun adjacent :: "('a \<Rightarrow> 'a \<Rightarrow> bool) \<Rightarrow> 'a list \<Rightarrow> bool" where
  "adjacent P (x # y # zs) = (P x y \<and> adjacent P (y # zs))"
| "adjacent P _ = True"

text \<open>One atomic step respects the decoder's protocol when the address lines move only
  while the decoder is disabled before and after the step, and the decoder goes from
  disabled to enabled only with the address lines of \<open>target\<close> in place.\<close>

definition decoder_step_ok :: "int \<Rightarrow> selector \<Rightarrow> selector \<Rightarrow> bool" where
  "decoder_step_ok target t t' =
     ((hc_lines t \<noteq> hc_lines t' \<longrightarrow> hc_disabled t \<and> hc_disabled t')
      \<and> (\<not> hc_enabled t \<and> hc_enabled t' \<longrightarrow> hc_address t' = target))"

section \<open>The operations in the words of the specification\<close>

text \<open>Section 4.3 of the specification, step by step, over the same devices.\<close>

definition disconnectAll_spec :: step where
  "disconnectAll_spec st =
     run (TS3USB30_disable ts3 @ PI3USB14_disable muxA @ PI3USB14_disable muxB
          @ HC137_disable hc137
          @ [set_selected (- 1)]) st"

definition connectPort_spec :: "int \<Rightarrow> step" where
  "connectPort_spec p st =
     (let d = pcs ! nat p;
          m = (if mux_side d = ''A'' then muxA else muxB)
      in run (TS3USB30_disable ts3 @ PI3USB14_disable muxA @ PI3USB14_disable muxB
              @ HC137_disable hc137
              @ HC137_select_addr hc137 (hc_addr d)
              @ PI3USB14_select m (mux_sel d)
              @ (if ts3_side d = ''A'' then TS3USB30_route_to_A ts3 else TS3USB30_route_to_B ts3)
              @ PI3USB14_enable m
              @ HC137_enable hc137
              @ [sleep_ms 2]
              @ TS3USB30_enable ts3
              @ [set_selected p]) st)"

definition refreshLeds_spec :: step where
  "refreshLeds_spec st =
     write8 OLATB (if selected st = - 1 then 0xFF
                   else 0xFF - 2 ^ led_bit (pcs ! nat (selected st))) st"

definition selectPort_spec :: "int \<Rightarrow> step" where
  "selectPort_spec idx st =
     refreshLeds_spec
       (if idx < 0 \<or> 7 < idx then disconnectAll_spec st
        else if idx = selected st then st
        else connectPort_spec idx st)"

section \<open>Auxiliary facts\<close>

lemmas dev_defs = ts3_def muxA_def muxB_def hc137_def
  TS3USB30_disable_def TS3USB30_enable_def TS3USB30_route_to_A_def TS3USB30_route_to_B_def
  PI3USB14_disable_def PI3USB14_enable_def PI3USB14_select_def
  HC137_disable_def HC137_enable_def HC137_select_addr_def

lemmas step_defs = pin_value_def set_selected_def sleep_ms_def set_last_sw_state_def

lemmas obs_defs = hc_enabled_def hc_disabled_def hc_lines_def hc_address_def mux_enabled_def
  mux_disabled_def mux_value_def ts3_enabled_def ts3_disabled_def ts3_routes_to_def
  all_disabled_def

lemma xor_int_eq_0: "(a::int) XOR b = 0 \<longleftrightarrow> a = b"
  by (auto simp: bit_eq_iff bit_xor_iff)

lemma bits3:
  assumes "0 \<le> a" "a \<le> 7"
  shows "4 * (drop_bit 2 a AND 1) + 2 * (drop_bit (Suc 0) a AND 1) + (a AND 1) = (a::int)"
proof -
  from assms have "a \<in> {0,1,2,3,4,5,6,7}" by auto
  then show ?thesis by auto
qed

lemma bits2:
  assumes "0 \<le> a" "a \<le> 3"
  shows "2 * (drop_bit (Suc 0) a AND 1) + (a AND 1) = (a::int)"
proof -
  from assms have "a \<in> {0,1,2,3}" by auto
  then show ?thesis by auto
qed

lemma valid_port_cases:
  "valid_port p \<Longrightarrow> p = 0 \<or> p = 1 \<or> p = 2 \<or> p = 3 \<or> p = 4 \<or> p = 5 \<or> p = 6 \<or> p = 7"
  unfolding valid_port_def by arith

lemma pcs_fields:
  assumes "valid_port p"
  shows "index (pcs ! nat p) = p" "hc_addr (pcs ! nat p) = p" "led_bit (pcs ! nat p) = nat p"
    "sw_bit (pcs ! nat p) = 7 - nat p" "ts3_side (pcs ! nat p) = mux_side (pcs ! nat p)"
    "0 \<le> mux_sel (pcs ! nat p)" "mux_sel (pcs ! nat p) \<le> 3"
    "mux_side (pcs ! nat p) = (if p < 4 then ''B'' else ''A'')"
  using valid_port_cases [OF assms] by (auto simp: pcs_def)

lemma length_pcs: "int (length pcs) = 8"
  by (simp add: pcs_def)

lemma disconnect_all_disabled:
  "all_disabled (disconnect_all st)" "selected (disconnect_all st) = - 1"
  by (simp_all add: disconnect_all_def disconnect_all_steps_def dev_defs step_defs obs_defs)

lemma route_to_pc_matches:
  assumes "0 \<le> hc_addr pc" "hc_addr pc \<le> 7" "0 \<le> mux_sel pc" "mux_sel pc \<le> 3"
    and "ts3_side pc = mux_side pc"
  shows "route_matches pc (route_to_pc pc st)"
proof (cases "mux_side pc = ''A''")
  case True
  with assms show ?thesis
    by (simp add: route_matches_def route_to_pc_def route_to_pc_steps_def dev_defs step_defs
        obs_defs Let_def bits3 bits2)
next
  case False
  with assms show ?thesis
    by (simp add: route_matches_def route_to_pc_def route_to_pc_steps_def dev_defs step_defs
        obs_defs Let_def bits3 bits2)
qed

lemma route_to_pc_selected: "selected (route_to_pc pc st) = index pc"
  by (simp add: route_to_pc_def route_to_pc_steps_def dev_defs step_defs Let_def)


lemma run_append: "run (xs @ ys) st = run ys (run xs st)"
  by (induction xs arbitrary: st) simp_all

lemma select_pc_eq:
  "select_pc idx st =
     update_leds (if \<not> valid_port idx then disconnect_all st
                  else if idx = selected st then st
                  else route_to_pc (pcs ! nat idx) st)"
  by (auto simp: select_pc_def select_pc_steps_def run_append valid_port_def length_pcs
      disconnect_all_def route_to_pc_def)

lemma disconnect_eq: "disconnect st = update_leds (disconnect_all st)"
  by (simp add: disconnect_def disconnect_steps_def run_append disconnect_all_def)

lemma led_mask_valid:
  assumes "valid_port p"
  shows "(0xFF::int) AND NOT (push_bit (nat p) 1) = 0xFF - 2 ^ nat p"
    and "(0xFF::int) AND NOT (2 ^ nat p) = 0xFF - 2 ^ nat p"
  using valid_port_cases [OF assms] by auto

lemma update_leds_frame:
  "pins (update_leds st) = pins st" "selected (update_leds st) = selected st"
  "last_sw_state (update_leds st) = last_sw_state st"
  by (simp_all add: update_leds_def set_led_only_def write8_def Let_def)

lemma update_leds_olatb:
  "olatb (update_leds st) =
     (if selected st < 0 then 0xFF else 0xFF AND NOT (push_bit (nat (selected st)) 1))"
  "i2c_writes (update_leds st) = i2c_writes st @ [(OLATB, olatb (update_leds st))]"
  by (simp_all add: update_leds_def set_led_only_def write8_def Let_def olatb_def)

lemma update_leds_led_inv:
  "valid_port (selected st) \<or> selected st = - 1 \<Longrightarrow> led_inv (update_leds st)"
  by (auto simp: led_inv_def update_leds_olatb update_leds_frame led_mask_valid pcs_fields)
    (simp_all add: valid_port_def)

lemma obs_update_leds:
  "route_inv (update_leds st) = route_inv st"
  "all_disabled (update_leds st) = all_disabled st"
  by (simp_all add: route_inv_def route_matches_def obs_defs update_leds_frame Let_def)

lemma select_pc_selected:
  "selected (select_pc idx st) = (if valid_port idx then idx else - 1)"
  by (simp add: select_pc_eq update_leds_frame disconnect_all_disabled route_to_pc_selected
      pcs_fields)

lemma route_inv_disconnect_all: "route_inv (disconnect_all st)"
  by (simp add: route_inv_def disconnect_all_disabled valid_port_def)

lemma route_inv_route_to_pc:
  "valid_port p \<Longrightarrow> route_inv (route_to_pc (pcs ! nat p) st)"
  by (simp add: route_inv_def route_to_pc_selected pcs_fields route_to_pc_matches valid_port_def)

lemma route_inv_select_pc: "route_inv st \<Longrightarrow> route_inv (select_pc idx st)"
  by (simp add: select_pc_eq obs_update_leds route_inv_disconnect_all route_inv_route_to_pc)

lemma led_inv_select_pc: "led_inv (select_pc idx st)"
  unfolding select_pc_eq
  by (rule update_leds_led_inv)
    (use select_pc_selected [of idx st] in \<open>auto simp: select_pc_eq update_leds_frame\<close>)

lemma swbit_lookup: "swbit_to_index b = (if b < 8 then Some (7 - int b) else None)"
  by (auto simp: swbit_to_index_def pcs_def)

lemma and_push_bit_test: "(r::int) AND push_bit b 1 \<noteq> 0 \<longleftrightarrow> bit r b"
  by (simp add: bit_iff_and_push_bit_not_eq_0)

lemma scan_bits_find:
  "\<forall>b\<in>set bs. b < 8 \<Longrightarrow>
   scan_bits r bs st = (case find (bit r) bs of None \<Rightarrow> st | Some b \<Rightarrow> select_pc (7 - int b) st)"
proof (induction bs)
  case Nil
  show ?case by simp
next
  case (Cons b bs)
  then have "b < 8" and IH: "scan_bits r bs st =
      (case find (bit r) bs of None \<Rightarrow> st | Some b \<Rightarrow> select_pc (7 - int b) st)"
    by simp_all
  show ?case
    using \<open>b < 8\<close> IH by (simp add: and_push_bit_test swbit_lookup del: push_bit_of_1)
    
qed

lemma find_rev_upt_Some:
  "find P (rev [0..<n]) = Some b \<longleftrightarrow> b < n \<and> P b \<and> (\<forall>c. b < c \<and> c < n \<longrightarrow> \<not> P c)"
proof (induction n)
  case 0
  show ?case by simp
next
  case (Suc n)
  show ?case
  proof (cases "P n")
    case True
    then show ?thesis
      by (auto simp: less_Suc_eq)
  next
    case False
    then show ?thesis
      using Suc by (auto simp: less_Suc_eq)
  qed
qed

lemma find_rev_upt_None: "find P (rev [0..<n]) = None \<longleftrightarrow> (\<forall>c<n. \<not> P c)"
  by (simp add: find_None_iff)

lemma bit_255: "bit (255::int) i \<longleftrightarrow> i < 8"
proof -
  have "bit (mask 8 :: int) i \<longleftrightarrow> i < 8" by (simp add: bit_mask_iff)
  then show ?thesis by (simp add: mask_eq_exp_minus_1)
qed

lemma byte_nonzero_bit:
  assumes "(x::int) AND 255 \<noteq> 0"
  shows "\<exists>i<8. bit (x AND 255) i"
proof (rule ccontr)
  assume "\<not> (\<exists>i<8. bit (x AND 255) i)"
  then have "\<forall>i. \<not> bit (x AND 255) i"
    by (auto simp: bit_and_iff bit_255)
  then have "x AND 255 = 0"
    by (simp add: bit_eq_iff)
  with assms show False by simp
qed


lemma rising_unchanged: "(NOT a AND a) AND (255::int) = 0"
  by (simp add: bit_eq_iff bit_and_iff bit_not_iff)

lemma on_mcp_int_no_rising:
  assumes "(NOT (last_sw_state st) AND g) AND 255 = 0"
  shows "on_mcp_int g st = st\<lparr>last_sw_state := g\<rparr>"
  using assms by (simp add: on_mcp_int_def Let_def xor_int_eq_0)

lemma on_mcp_int_rising:
  assumes "(NOT (last_sw_state st) AND g) AND 255 \<noteq> 0"
  shows "\<exists>b<8. bit ((NOT (last_sw_state st) AND g) AND 255) b
      \<and> (\<forall>c. b < c \<and> c < 8 \<longrightarrow> \<not> bit ((NOT (last_sw_state st) AND g) AND 255) c)
      \<and> on_mcp_int g st = (select_pc (7 - int b) st)\<lparr>last_sw_state := g\<rparr>"
proof -
  let ?r = "(NOT (last_sw_state st) AND g) AND 255"
  from assms have ne: "last_sw_state st \<noteq> g"
    using rising_unchanged [of g] by auto
  from byte_nonzero_bit [OF assms] obtain i where "i < 8" "bit ?r i" by blast
  then have "find (bit ?r) (rev [0..<8]) \<noteq> None"
    by (auto simp: find_rev_upt_None simp del: upt_rec_numeral)
  then obtain b where fb: "find (bit ?r) (rev [0..<8]) = Some b" by auto
  then have b: "b < 8" "bit ?r b" "\<forall>c. b < c \<and> c < 8 \<longrightarrow> \<not> bit ?r c"
    unfolding find_rev_upt_Some by auto
  have "scan_bits ?r (rev [0..<8]) st = select_pc (7 - int b) st"
    using scan_bits_find [of "rev [0..<8]" ?r st] fb by simp
  then have "on_mcp_int g st = (select_pc (7 - int b) st)\<lparr>last_sw_state := g\<rparr>"
    using assms ne by (simp add: on_mcp_int_def Let_def xor_int_eq_0)
  with b show ?thesis by blast
qed

lemma init_facts:
  "selected (Usb8Selector_init g boot) = - 1"
  "all_disabled (Usb8Selector_init g boot)"
  "olatb (Usb8Selector_init g boot) = 0xFF"
  "last_sw_state (Usb8Selector_init g boot) = g"
  by (simp_all add: Usb8Selector_init_def TS3USB30_init_def PI3USB14_init_def HC137_init_def
      HC137_all_off_def MCP23017_init_def disconnect_all_steps_def update_leds_def
      set_led_only_def write8_def dev_defs step_defs obs_defs olatb_def Let_def)

lemma inv_last_sw_state:
  "route_inv (st\<lparr>last_sw_state := g\<rparr>) = route_inv st"
  "led_inv (st\<lparr>last_sw_state := g\<rparr>) = led_inv st"
  by (simp_all add: route_inv_def route_matches_def led_inv_def obs_defs olatb_def Let_def)

lemma route_inv_on_mcp_int: "route_inv st \<Longrightarrow> route_inv (on_mcp_int g st)"
proof (cases "(NOT (last_sw_state st) AND g) AND 255 = 0")
  case True
  assume "route_inv st"
  then show ?thesis by (simp add: on_mcp_int_no_rising [OF True] inv_last_sw_state)
next
  case False
  assume "route_inv st"
  with on_mcp_int_rising [OF False] show ?thesis
    by (auto simp: inv_last_sw_state route_inv_select_pc)
qed

lemma led_inv_on_mcp_int: "led_inv st \<Longrightarrow> led_inv (on_mcp_int g st)"
proof (cases "(NOT (last_sw_state st) AND g) AND 255 = 0")
  case True
  assume "led_inv st"
  then show ?thesis by (simp add: on_mcp_int_no_rising [OF True] inv_last_sw_state)
next
  case False
  with on_mcp_int_rising [OF False] show ?thesis
    by (auto simp: inv_last_sw_state led_inv_select_pc)
qed

lemma reachable_inv: "reachable st \<Longrightarrow> route_inv st \<and> led_inv st"
proof (induction rule: reachable.induct)
  case (reach_init gpioa boot)
  show ?case
    by (simp add: route_inv_def led_inv_def init_facts valid_port_def)
next
  case (reach_select st idx)
  then show ?case by (simp add: route_inv_select_pc led_inv_select_pc)
next
  case (reach_disconnect st)
  have "led_inv (disconnect st)"
    unfolding disconnect_eq by (rule update_leds_led_inv) (simp add: disconnect_all_disabled)
  then show ?case
    by (simp add: disconnect_eq obs_update_leds route_inv_disconnect_all)
next
  case (reach_int st gpioa)
  then show ?case by (simp add: route_inv_on_mcp_int led_inv_on_mcp_int)
qed

lemma pins_step:
  "pins (pin_value p v t) q = (if q = p then v else pins t q)"
  "pins (set_selected i t) = pins t"
  "pins (sleep_ms n t) = pins t"
  "pins (update_leds t) = pins t"
  by (simp_all add: step_defs update_leds_frame)

lemma route_trace_decoder:
  assumes "0 \<le> hc_addr pc" "hc_addr pc \<le> 7"
  shows "adjacent (decoder_step_ok (hc_addr pc)) (trace (route_to_pc_steps pc @ [update_leds]) st)"
proof (cases "mux_side pc = ''A''")
  case True
  with assms show ?thesis
    by (simp add: route_to_pc_steps_def dev_defs decoder_step_ok_def
        hc_enabled_def hc_disabled_def hc_lines_def hc_address_def pins_step Let_def bits3)
next
  case False
  with assms show ?thesis
    by (simp add: route_to_pc_steps_def dev_defs decoder_step_ok_def
        hc_enabled_def hc_disabled_def hc_lines_def hc_address_def pins_step Let_def bits3)
qed


lemma route_trace_power:
  assumes "0 \<le> hc_addr pc" "hc_addr pc \<le> 7"
  shows "list_all (\<lambda>t. hc_enabled t \<longrightarrow>
            (hc_enabled st \<and> hc_address t = hc_address st) \<or> hc_address t = hc_addr pc)
          (trace (route_to_pc_steps pc @ [update_leds]) st)"
proof (cases "mux_side pc = ''A''")
  case True
  with assms show ?thesis
    by (simp add: route_to_pc_steps_def dev_defs hc_enabled_def hc_address_def pins_step
        Let_def bits3)
next
  case False
  with assms show ?thesis
    by (simp add: route_to_pc_steps_def dev_defs hc_enabled_def hc_address_def pins_step
        Let_def bits3)
qed

lemma idle_trace_decoder:
  "adjacent (decoder_step_ok a) (trace [update_leds] st)"
  by (simp add: decoder_step_ok_def hc_enabled_def hc_disabled_def hc_lines_def pins_step)

lemma last_trace: "last (trace fs st) = run fs st"
proof (induction fs arbitrary: st)
  case Nil
  show ?case by simp
next
  case (Cons f fs)
  have "trace fs (f st) \<noteq> []" by (cases fs) simp_all
  with Cons show ?case by simp
qed

lemma select_trace_decoder:
  assumes "valid_port p"
  shows "adjacent (decoder_step_ok (hc_addr (pcs ! nat p))) (trace (select_pc_steps p st) st)"
proof -
  have a: "0 \<le> hc_addr (pcs ! nat p)" "hc_addr (pcs ! nat p) \<le> 7"
    using assms by (simp_all add: pcs_fields valid_port_def)
  show ?thesis
    using assms route_trace_decoder [OF a, of st] idle_trace_decoder [of _ st]
    by (simp add: select_pc_steps_def length_pcs valid_port_def)
qed

lemma select_trace_power:
  assumes "valid_port p" "t \<in> set (trace (select_pc_steps p st) st)" "hc_enabled t"
  shows "hc_address t = hc_address st \<or> hc_address t = p"
proof -
  have a: "0 \<le> hc_addr (pcs ! nat p)" "hc_addr (pcs ! nat p) \<le> 7"
    using assms by (simp_all add: pcs_fields valid_port_def)
  show ?thesis
  proof (cases "p = selected st")
    case True
    with assms have "t = st \<or> t = update_leds st"
      by (simp add: select_pc_steps_def length_pcs valid_port_def)
    then show ?thesis by (auto simp: hc_address_def pins_step)
  next
    case False
    with assms have "t \<in> set (trace (route_to_pc_steps (pcs ! nat p) @ [update_leds]) st)"
      by (simp add: select_pc_steps_def length_pcs valid_port_def)
    with route_trace_power [OF a, of st] assms show ?thesis
      by (auto simp: list_all_iff pcs_fields)
  qed
qed

lemma power_on_unique:
  assumes "valid_port q1" "valid_port q2" "power_on t q1" "power_on t q2"
  shows "q1 = q2"
  using assms by (simp add: power_on_def pcs_fields)

lemma selector_eqI:
  "pins a = pins b \<Longrightarrow> mcp_regs a = mcp_regs b \<Longrightarrow> i2c_writes a = i2c_writes b \<Longrightarrow>
   selected a = selected b \<Longrightarrow> last_sw_state a = last_sw_state b \<Longrightarrow> a = (b::selector)"
  by simp

lemma frame_step:
  "mcp_regs (pin_value p v t) = mcp_regs t" "i2c_writes (pin_value p v t) = i2c_writes t"
  "selected (pin_value p v t) = selected t" "last_sw_state (pin_value p v t) = last_sw_state t"
  "mcp_regs (set_selected i t) = mcp_regs t" "i2c_writes (set_selected i t) = i2c_writes t"
  "selected (set_selected i t) = i" "last_sw_state (set_selected i t) = last_sw_state t"
  "sleep_ms n t = t"
  by (simp_all add: step_defs)

lemma route_to_pc_spec:
  assumes "valid_port p"
  shows "route_to_pc (pcs ! nat p) st = connectPort_spec p st"
proof (cases "p < 4")
  case True
  show ?thesis
    by (rule selector_eqI)
      (simp_all add: route_to_pc_def route_to_pc_steps_def connectPort_spec_def Let_def
        pcs_fields [OF assms] True dev_defs pins_step frame_step fun_eq_iff)
next
  case False
  show ?thesis
    by (rule selector_eqI)
      (simp_all add: route_to_pc_def route_to_pc_steps_def connectPort_spec_def Let_def
        pcs_fields [OF assms] False dev_defs pins_step frame_step fun_eq_iff)
qed

lemma update_leds_spec:
  assumes "valid_port (selected st) \<or> selected st = - 1"
  shows "update_leds st = refreshLeds_spec st"
  using assms
  by (auto simp: update_leds_def set_led_only_def refreshLeds_spec_def Let_def led_mask_valid
      pcs_fields valid_port_def)

lemma bit_led_byte:
  assumes "k < 8"
  shows "bit ((255::int) - 2 ^ k) i \<longleftrightarrow> i < 8 \<and> i \<noteq> k"
proof -
  have "(255::int) - 2 ^ k = 255 AND NOT (2 ^ k)"
    using led_mask_valid(2) [of "int k"] assms by (simp add: valid_port_def)
  then show ?thesis
    by (auto simp: bit_and_iff bit_not_iff bit_255 bit_exp_iff)
qed

lemma select_pc_olatb:
  "olatb (select_pc idx st) = (if valid_port idx then 0xFF - 2 ^ nat idx else 0xFF)"
  using led_inv_select_pc [of idx st]
  by (simp add: led_inv_def select_pc_selected pcs_fields valid_port_def)

lemma select_pc_write:
  "i2c_writes (select_pc idx st) = i2c_writes st @ [(OLATB, olatb (select_pc idx st))]"
  unfolding select_pc_eq
  by (simp add: update_leds_olatb(2) disconnect_all_def route_to_pc_def run_append
      disconnect_all_steps_def route_to_pc_steps_def dev_defs frame_step Let_def)

lemma rev_upt_8: "rev [0..<8] = [7, 6, 5, 4, 3, 2, 1, 0]"
  by code_simp

lemma select_pc_last_sw_state:
  "select_pc i (st\<lparr>last_sw_state := g\<rparr>) = (select_pc i st)\<lparr>last_sw_state := g\<rparr>"
  by (simp add: select_pc_def select_pc_steps_def run_append update_leds_def set_led_only_def
      write8_def disconnect_all_steps_def route_to_pc_steps_def dev_defs step_defs Let_def)

lemma reachable_selected_route:
  assumes "reachable st" "valid_port (selected st)"
  shows "hc_enabled st" "hc_address st = selected st"
  using reachable_inv [OF assms(1)] assms(2)
  by (simp_all add: route_inv_def route_matches_def Let_def pcs_fields)

section \<open>The claims\<close>

text \<open>
  Claim C1. Take a state of the program and two different ports \<open>p1\<close>, \<open>p2\<close>; run
  \<^verbatim>\<open>select_pc(p1)\<close>, then \<^verbatim>\<open>select_pc(p2)\<close>, and look at the state after every
  single pin write. No state has the supply lines of two ports asserted; during the second
  call only the supply line of \<open>p1\<close> or of \<open>p2\<close> is ever asserted; in both calls the
  address lines of the decoder move only while \<^verbatim>\<open>~E1\<close> is high before and after the
  write, and \<^verbatim>\<open>~E1\<close> goes low only with the address of the new port on the lines. At
  the end port \<open>p2\<close> is powered and port \<open>p1\<close> is not.
\<close>

theorem decoder_sequencing:
  assumes "reachable st" "valid_port p1" "valid_port p2" "p1 \<noteq> p2"
  shows "last (trace (select_pc_steps p1 st) st) = select_pc p1 st
    \<and> last (trace (select_pc_steps p2 (select_pc p1 st)) (select_pc p1 st))
        = select_pc p2 (select_pc p1 st)
    \<and> (\<forall>t \<in> set (trace (select_pc_steps p1 st) st
                   @ trace (select_pc_steps p2 (select_pc p1 st)) (select_pc p1 st)).
          \<forall>q1 q2. valid_port q1 \<and> valid_port q2 \<and> power_on t q1 \<and> power_on t q2 \<longrightarrow> q1 = q2)
    \<and> (\<forall>t \<in> set (trace (select_pc_steps p2 (select_pc p1 st)) (select_pc p1 st)).
          \<forall>q. valid_port q \<and> power_on t q \<longrightarrow> q = p1 \<or> q = p2)
    \<and> adjacent (decoder_step_ok (hc_addr (pcs ! nat p1))) (trace (select_pc_steps p1 st) st)
    \<and> adjacent (decoder_step_ok (hc_addr (pcs ! nat p2)))
          (trace (select_pc_steps p2 (select_pc p1 st)) (select_pc p1 st))
    \<and> power_on (select_pc p1 st) p1
    \<and> power_on (select_pc p2 (select_pc p1 st)) p2
    \<and> \<not> power_on (select_pc p2 (select_pc p1 st)) p1"
proof -
  let ?s1 = "select_pc p1 st"
  let ?s2 = "select_pc p2 ?s1"
  have r1: "reachable ?s1" using assms(1) by (rule reach_select)
  then have r2: "reachable ?s2" by (rule reach_select)
  have sel1: "selected ?s1 = p1" and sel2: "selected ?s2 = p2"
    using assms by (simp_all add: select_pc_selected)
  have on1: "hc_enabled ?s1" "hc_address ?s1 = p1"
    using reachable_selected_route [OF r1] assms(2) by (simp_all add: sel1)
  have on2: "hc_enabled ?s2" "hc_address ?s2 = p2"
    using reachable_selected_route [OF r2] assms(3) by (simp_all add: sel2)
  have a: "last (trace (select_pc_steps p1 st) st) = ?s1"
    "last (trace (select_pc_steps p2 ?s1) ?s1) = ?s2"
    by (simp_all add: last_trace select_pc_def)
  have b: "\<forall>t \<in> set (trace (select_pc_steps p1 st) st @ trace (select_pc_steps p2 ?s1) ?s1).
      \<forall>q1 q2. valid_port q1 \<and> valid_port q2 \<and> power_on t q1 \<and> power_on t q2 \<longrightarrow> q1 = q2"
    using power_on_unique by blast
  have c: "\<forall>t \<in> set (trace (select_pc_steps p2 ?s1) ?s1).
      \<forall>q. valid_port q \<and> power_on t q \<longrightarrow> q = p1 \<or> q = p2"
  proof (intro ballI allI impI)
    fix t q
    assume t: "t \<in> set (trace (select_pc_steps p2 ?s1) ?s1)"
      and "valid_port q \<and> power_on t q"
    then have q: "valid_port q" "hc_enabled t" "hc_address t = q"
      by (simp_all add: power_on_def pcs_fields)
    from select_trace_power [OF assms(3) t q(2)] q(3) on1(2)
    show "q = p1 \<or> q = p2" by auto
  qed
  have d: "adjacent (decoder_step_ok (hc_addr (pcs ! nat p1))) (trace (select_pc_steps p1 st) st)"
    "adjacent (decoder_step_ok (hc_addr (pcs ! nat p2))) (trace (select_pc_steps p2 ?s1) ?s1)"
    by (rule select_trace_decoder [OF assms(2)], rule select_trace_decoder [OF assms(3)])
  have e: "power_on ?s1 p1" "power_on ?s2 p2" "\<not> power_on ?s2 p1"
    using on1 on2 assms by (simp_all add: power_on_def pcs_fields)
  from a b c d e show ?thesis by blast
qed

theorem decoder_sequencing_witness:
  "reachable (Usb8Selector_init 255 boot0) \<and> valid_port 2 \<and> valid_port 5 \<and> (2::int) \<noteq> 5
    \<and> adjacent (decoder_step_ok (hc_addr (pcs ! nat 5)))
          (trace (select_pc_steps 5 (select_pc 2 (Usb8Selector_init 255 boot0)))
             (select_pc 2 (Usb8Selector_init 255 boot0)))
    \<and> power_on (select_pc 2 (Usb8Selector_init 255 boot0)) 2
    \<and> power_on (select_pc 5 (select_pc 2 (Usb8Selector_init 255 boot0))) 5
    \<and> \<not> power_on (select_pc 5 (select_pc 2 (Usb8Selector_init 255 boot0))) 2"
proof -
  have h: "reachable (Usb8Selector_init 255 boot0)" "valid_port 2" "valid_port 5" "(2::int) \<noteq> 5"
    by (simp_all add: reach_init valid_port_def)
  from decoder_sequencing [OF h] h show ?thesis
    by blast
qed

text \<open>
  Claim C2. In every state of the program, and so after \<^verbatim>\<open>select_pc\<close> with any integer,
  after \<^verbatim>\<open>disconnect\<close> and after the interrupt handler, the route invariant holds: with
  port \<open>p\<close> selected, the decoder address, the TS3USB30 side and the select value of the
  PI3USB14 on that port's side are those of the table entry of \<open>p\<close>, that PI3USB14 alone is
  enabled, and the TS3USB30 and the decoder are enabled; with no port selected, all four
  devices are disabled. No other value of \<open>selected\<close> occurs.
\<close>

theorem route_invariant_after_operations:
  assumes "reachable st"
  shows "route_inv st \<and> route_inv (select_pc idx st) \<and> route_inv (disconnect st)
    \<and> route_inv (on_mcp_int g st)"
proof -
  have "reachable (select_pc idx st)" "reachable (disconnect st)" "reachable (on_mcp_int g st)"
    using assms by (rule reach_select reach_disconnect reach_int)+
  with assms show ?thesis by (simp add: reachable_inv)
qed

theorem route_invariant_after_operations_witness:
  "reachable (Usb8Selector_init 255 boot0)
   \<and> route_inv (select_pc 3 (Usb8Selector_init 255 boot0))
   \<and> route_inv (disconnect (Usb8Selector_init 255 boot0))
   \<and> route_inv (on_mcp_int 127 (Usb8Selector_init 255 boot0))"
  using route_invariant_after_operations [OF reach_init, of 255 boot0 3 127]
  by (simp add: reach_init)

text \<open>
  Claim C3. For every integer \<open>idx\<close>, \<^verbatim>\<open>select_pc\<close> disconnects everything when
  \<open>idx\<close> is outside 0..7, leaves the route alone when \<open>idx\<close> is the selected port,
  and otherwise runs the routing sequence for port \<open>idx\<close>; in each case it then writes
  the LED byte of the resulting selection. This is the operation \<open>selectPort\<close> of the
  specification, and the resulting selection is \<open>idx\<close> or none.
\<close>

theorem select_pc_refines_spec:
  "select_pc idx st = selectPort_spec idx st
   \<and> select_pc idx st =
       update_leds (if idx < 0 \<or> 7 < idx then disconnect_all st
                    else if idx = selected st then st
                    else route_to_pc (pcs ! nat idx) st)
   \<and> selected (select_pc idx st) = (if idx < 0 \<or> 7 < idx then - 1 else idx)"
proof -
  let ?mid = "if idx < 0 \<or> 7 < idx then disconnect_all st
              else if idx = selected st then st
              else route_to_pc (pcs ! nat idx) st"
  have code: "select_pc idx st = update_leds ?mid"
    by (simp add: select_pc_eq valid_port_def not_le not_less) 
  have sel: "selected ?mid = (if idx < 0 \<or> 7 < idx then - 1 else idx)"
    by (simp add: disconnect_all_disabled route_to_pc_selected pcs_fields valid_port_def)
  have mid: "?mid = (if idx < 0 \<or> 7 < idx then disconnectAll_spec st
        else if idx = selected st then st else connectPort_spec idx st)"
    by (simp add: route_to_pc_spec valid_port_def disconnect_all_def disconnectAll_spec_def
        disconnect_all_steps_def)
  have "update_leds ?mid = refreshLeds_spec ?mid"
    by (rule update_leds_spec) (auto simp: sel valid_port_def)
  then have spec: "select_pc idx st = selectPort_spec idx st"
    unfolding code selectPort_spec_def mid [symmetric] .
  have "selected (select_pc idx st) = (if idx < 0 \<or> 7 < idx then - 1 else idx)"
    unfolding code update_leds_frame by (rule sel)
  with spec code show ?thesis by blast
qed

text \<open>
  Claim C4. After \<^verbatim>\<open>select_pc(p)\<close> with \<open>p\<close> in 0..7, the byte written to OLATB has bit
  \<open>led_bit\<close> of port \<open>p\<close> cleared and the other seven bits set, and it is the one byte
  the call writes. After \<^verbatim>\<open>disconnect\<close>, and after \<^verbatim>\<open>select_pc\<close> with an index outside
  0..7, the byte written is 0xFF and all four route devices are disabled.
\<close>

theorem led_byte_after_selection:
  "(valid_port p \<longrightarrow>
      olatb (select_pc p st) = 0xFF - 2 ^ led_bit (pcs ! nat p)
      \<and> (\<forall>i. bit (olatb (select_pc p st)) i \<longleftrightarrow> i < 8 \<and> i \<noteq> led_bit (pcs ! nat p))
      \<and> i2c_writes (select_pc p st)
          = i2c_writes st @ [(OLATB, 0xFF - 2 ^ led_bit (pcs ! nat p))])
   \<and> (\<not> valid_port idx \<longrightarrow>
      olatb (select_pc idx st) = 0xFF \<and> all_disabled (select_pc idx st)
      \<and> i2c_writes (select_pc idx st) = i2c_writes st @ [(OLATB, 0xFF)])
   \<and> olatb (disconnect st) = 0xFF \<and> all_disabled (disconnect st)
   \<and> i2c_writes (disconnect st) = i2c_writes st @ [(OLATB, 0xFF)]"
proof -
  have a: "olatb (select_pc p st) = 0xFF - 2 ^ led_bit (pcs ! nat p)"
    "\<forall>i. bit (olatb (select_pc p st)) i \<longleftrightarrow> i < 8 \<and> i \<noteq> led_bit (pcs ! nat p)"
    "i2c_writes (select_pc p st) = i2c_writes st @ [(OLATB, 0xFF - 2 ^ led_bit (pcs ! nat p))]"
    if "valid_port p"
  proof -
    have k: "nat p < 8" using that unfolding valid_port_def by arith
    show "olatb (select_pc p st) = 0xFF - 2 ^ led_bit (pcs ! nat p)"
      using that by (simp add: select_pc_olatb pcs_fields)
    then show "i2c_writes (select_pc p st)
        = i2c_writes st @ [(OLATB, 0xFF - 2 ^ led_bit (pcs ! nat p))]"
      using select_pc_write [of p st] by simp
    show "\<forall>i. bit (olatb (select_pc p st)) i \<longleftrightarrow> i < 8 \<and> i \<noteq> led_bit (pcs ! nat p)"
      using that bit_led_byte [OF k] by (simp add: select_pc_olatb pcs_fields)
  qed
  have b: "olatb (select_pc idx st) = 0xFF" "all_disabled (select_pc idx st)"
    "i2c_writes (select_pc idx st) = i2c_writes st @ [(OLATB, 0xFF)]"
    if "\<not> valid_port idx"
  proof -
    show o: "olatb (select_pc idx st) = 0xFF"
      using that by (simp add: select_pc_olatb)
    show "all_disabled (select_pc idx st)"
      using that by (simp add: select_pc_eq obs_update_leds disconnect_all_disabled)
    show "i2c_writes (select_pc idx st) = i2c_writes st @ [(OLATB, 0xFF)]"
      using select_pc_write [of idx st] o by simp
  qed
  have c: "olatb (disconnect st) = 0xFF" "all_disabled (disconnect st)"
    by (simp_all add: disconnect_eq obs_update_leds disconnect_all_disabled update_leds_olatb)
  have "i2c_writes (disconnect_all st) = i2c_writes st"
    by (simp add: disconnect_all_def disconnect_all_steps_def dev_defs frame_step)
  with c(1) have d: "i2c_writes (disconnect st) = i2c_writes st @ [(OLATB, 0xFF)]"
    using update_leds_olatb(2) [of "disconnect_all st"] by (simp add: disconnect_eq)
  from a b c d show ?thesis by blast
qed

theorem led_byte_after_selection_witness:
  "valid_port 5 \<and> \<not> valid_port 8
   \<and> olatb (select_pc 5 boot0) = 0xDF
   \<and> olatb (select_pc 8 boot0) = 0xFF \<and> all_disabled (select_pc 8 boot0)"
  using led_byte_after_selection [of 5 boot0 8]
  by (simp add: valid_port_def pcs_def)

text \<open>
  Claim C5. The handler selects on a release only. When no bit went from 0 to 1 since the
  last sample, the handler changes nothing but \<open>last_sw_state\<close>; so whenever it writes to
  the expander, or changes a pin or the selection, some bit did go from 0 to 1. With
  \<open>last_sw_state = 0b11111111\<close>, the sample \<open>0b01111111\<close> selects nothing, and the
  following sample \<open>0b11111111\<close> selects port 0, the one port whose \<open>sw_bit\<close> is 7.
\<close>

theorem release_edge_triggers_selection:
  "((NOT (last_sw_state st) AND g) AND 0xFF = 0 \<longrightarrow>
       on_mcp_int g st = st\<lparr>last_sw_state := g\<rparr>)
   \<and> (i2c_writes (on_mcp_int g st) \<noteq> i2c_writes st \<or> selected (on_mcp_int g st) \<noteq> selected st
        \<or> pins (on_mcp_int g st) \<noteq> pins st \<longrightarrow>
       (NOT (last_sw_state st) AND g) AND 0xFF \<noteq> 0)
   \<and> (last_sw_state st = 0xFF \<longrightarrow>
       on_mcp_int 0x7F st = st\<lparr>last_sw_state := 0x7F\<rparr>
       \<and> on_mcp_int 0xFF (on_mcp_int 0x7F st) = (select_pc 0 st)\<lparr>last_sw_state := 0xFF\<rparr>
       \<and> i2c_writes (on_mcp_int 0xFF (on_mcp_int 0x7F st)) = i2c_writes st @ [(OLATB, 0xFE)]
       \<and> selected (on_mcp_int 0xFF (on_mcp_int 0x7F st)) = 0)
   \<and> sw_bit (pcs ! 0) = 7 \<and> (\<forall>p. valid_port p \<and> sw_bit (pcs ! nat p) = 7 \<longrightarrow> p = 0)"
proof -
  have a: "on_mcp_int g st = st\<lparr>last_sw_state := g\<rparr>"
    if "(NOT (last_sw_state st) AND g) AND 0xFF = 0"
    using that by (rule on_mcp_int_no_rising)
  have b: "(NOT (last_sw_state st) AND g) AND 0xFF \<noteq> 0"
    if "i2c_writes (on_mcp_int g st) \<noteq> i2c_writes st \<or> selected (on_mcp_int g st) \<noteq> selected st
        \<or> pins (on_mcp_int g st) \<noteq> pins st"
  proof
    assume "(NOT (last_sw_state st) AND g) AND 0xFF = 0"
    then have "on_mcp_int g st = st\<lparr>last_sw_state := g\<rparr>" by (rule a)
    with that show False by simp
  qed
  have c: "on_mcp_int 0x7F st = st\<lparr>last_sw_state := 0x7F\<rparr>"
    "on_mcp_int 0xFF (on_mcp_int 0x7F st) = (select_pc 0 st)\<lparr>last_sw_state := 0xFF\<rparr>"
    "i2c_writes (on_mcp_int 0xFF (on_mcp_int 0x7F st)) = i2c_writes st @ [(OLATB, 0xFE)]"
    "selected (on_mcp_int 0xFF (on_mcp_int 0x7F st)) = 0"
    if l: "last_sw_state st = 0xFF"
  proof -
    show p: "on_mcp_int 0x7F st = st\<lparr>last_sw_state := 0x7F\<rparr>"
      by (rule on_mcp_int_no_rising) (simp add: l)
    have "on_mcp_int 0xFF (st\<lparr>last_sw_state := 0x7F\<rparr>)
        = (select_pc 0 (st\<lparr>last_sw_state := 0x7F\<rparr>))\<lparr>last_sw_state := 0xFF\<rparr>"
      by (simp add: on_mcp_int_def Let_def swbit_lookup rev_upt_8)
    then show r: "on_mcp_int 0xFF (on_mcp_int 0x7F st) = (select_pc 0 st)\<lparr>last_sw_state := 0xFF\<rparr>"
      by (simp add: p select_pc_last_sw_state)
    show "i2c_writes (on_mcp_int 0xFF (on_mcp_int 0x7F st)) = i2c_writes st @ [(OLATB, 0xFE)]"
      using select_pc_write [of 0 st] by (simp add: r select_pc_olatb valid_port_def)
    show "selected (on_mcp_int 0xFF (on_mcp_int 0x7F st)) = 0"
      by (simp add: r select_pc_selected valid_port_def)
  qed
  have d: "sw_bit (pcs ! 0) = 7" by (simp add: pcs_def)
  have e: "\<forall>p. valid_port p \<and> sw_bit (pcs ! nat p) = 7 \<longrightarrow> p = 0"
  proof (intro allI impI)
    fix p assume "valid_port p \<and> sw_bit (pcs ! nat p) = 7"
    then have v: "valid_port p" and sw: "sw_bit (pcs ! nat p) = 7" by simp_all
    from sw have "7 - nat p = 7" by (simp add: pcs_fields(4) [OF v])
    with v show "p = 0" unfolding valid_port_def by arith
  qed
  from a b c d e show ?thesis by blast
qed

theorem release_edge_triggers_selection_witness:
  "last_sw_state (Usb8Selector_init 0xFF boot0) = 0xFF
   \<and> (NOT (0xFF::int) AND 0x7F) AND 0xFF = 0
   \<and> on_mcp_int 0x7F (Usb8Selector_init 0xFF boot0)
       = (Usb8Selector_init 0xFF boot0)\<lparr>last_sw_state := 0x7F\<rparr>
   \<and> selected (on_mcp_int 0xFF (on_mcp_int 0x7F (Usb8Selector_init 0xFF boot0))) = 0"
proof -
  let ?s = "Usb8Selector_init 0xFF boot0"
  have h1: "last_sw_state ?s = 0xFF"
    by (simp add: init_facts)
  have h2: "(NOT (0xFF::int) AND 0x7F) AND 0xFF = 0"
    by simp
  from release_edge_triggers_selection [of ?s "0x7F"] h1 h2 show ?thesis
    by blast
qed

text \<open>
  Claim C6. When the sample has a rising edge on one or more bits, the handler calls
  \<^verbatim>\<open>select_pc\<close> for exactly one port: a port whose \<open>sw_bit\<close> has a rising edge, with no
  port of a lower index having one. The handler's whole effect is that one call followed by
  the update of \<open>last_sw_state\<close>, and it writes one LED byte.
\<close>

theorem lowest_port_wins:
  assumes "(NOT (last_sw_state st) AND g) AND 0xFF \<noteq> 0"
  shows "\<exists>p. valid_port p
      \<and> bit ((NOT (last_sw_state st) AND g) AND 0xFF) (sw_bit (pcs ! nat p))
      \<and> (\<forall>q. valid_port q \<and> bit ((NOT (last_sw_state st) AND g) AND 0xFF) (sw_bit (pcs ! nat q))
            \<longrightarrow> p \<le> q)
      \<and> on_mcp_int g st = (select_pc p st)\<lparr>last_sw_state := g\<rparr>
      \<and> i2c_writes (on_mcp_int g st) = i2c_writes st @ [(OLATB, 0xFF - 2 ^ nat p)]"
proof -
  let ?r = "(NOT (last_sw_state st) AND g) AND 0xFF"
  from on_mcp_int_rising [OF assms] obtain b where b: "b < 8" "bit ?r b"
    "\<forall>c. b < c \<and> c < 8 \<longrightarrow> \<not> bit ?r c"
    "on_mcp_int g st = (select_pc (7 - int b) st)\<lparr>last_sw_state := g\<rparr>"
    by blast
  let ?p = "7 - int b"
  have v: "valid_port ?p" using b(1) by (simp add: valid_port_def)
  have sw: "sw_bit (pcs ! nat ?p) = b" using b(1) by (simp add: pcs_fields [OF v])
  have low: "?p \<le> q" if q: "valid_port q" "bit ?r (sw_bit (pcs ! nat q))" for q
  proof (rule ccontr)
    assume "\<not> ?p \<le> q"
    with q(1) have "b < 7 - nat q" "7 - nat q < 8" by (auto simp: valid_port_def)
    with b(3) have "\<not> bit ?r (7 - nat q)" by blast
    with q show False by (simp add: pcs_fields)
  qed
  have "i2c_writes (on_mcp_int g st) = i2c_writes st @ [(OLATB, 0xFF - 2 ^ nat ?p)]"
    using select_pc_write [of ?p st] v by (simp add: b(4) select_pc_olatb)
  with v sw b(2,4) low show ?thesis
    by (intro exI [of _ ?p]) simp
qed

theorem lowest_port_wins_witness:
  "(NOT (last_sw_state (boot0\<lparr>last_sw_state := 0x3F\<rparr>)) AND 0xFF) AND 0xFF \<noteq> (0::int)
   \<and> on_mcp_int 0xFF (boot0\<lparr>last_sw_state := 0x3F\<rparr>)
       = (select_pc 0 (boot0\<lparr>last_sw_state := 0x3F\<rparr>))\<lparr>last_sw_state := 0xFF\<rparr>"
proof -
  let ?s = "boot0\<lparr>last_sw_state := 0x3F\<rparr>"
  let ?r = "(NOT (last_sw_state ?s) AND 0xFF) AND (0xFF::int)"
  have h: "?r \<noteq> 0"
    by simp
  from lowest_port_wins [OF h] obtain p where p: "valid_port p"
    "\<forall>q. valid_port q \<and> bit ?r (sw_bit (pcs ! nat q)) \<longrightarrow> p \<le> q"
    "on_mcp_int 0xFF ?s = (select_pc p ?s)\<lparr>last_sw_state := 0xFF\<rparr>"
    by blast
  have "valid_port 0 \<and> bit ?r (sw_bit (pcs ! nat 0))"
    by (simp add: valid_port_def pcs_def bit_and_iff bit_255)
  with p(2) have "p \<le> 0" by blast
  with p(1) have "p = 0" by (simp add: valid_port_def)
  with p(3) h show ?thesis by simp
qed

text \<open>
  Claim C7. After the handler, \<open>last_sw_state\<close> is the byte it sampled, whether or not the
  interrupt was discarded for want of a changed bit.
\<close>

theorem last_sample_resynchronised:
  "last_sw_state (on_mcp_int g st) = g"
  by (simp add: on_mcp_int_def Let_def xor_int_eq_0)

text \<open>
  Claim C8. In a state of the program with port \<open>p\<close> selected, \<^verbatim>\<open>select_pc(p)\<close> leaves
  every pin, the selection, the LED byte and all other expander registers as they were: its
  only effect is to send the LED byte that is already there over the bus once more.
\<close>

theorem reselect_is_noop:
  assumes "reachable st" "valid_port (selected st)"
  shows "pins (select_pc (selected st) st) = pins st
    \<and> selected (select_pc (selected st) st) = selected st
    \<and> olatb (select_pc (selected st) st) = olatb st
    \<and> mcp_regs (select_pc (selected st) st) = mcp_regs st
    \<and> last_sw_state (select_pc (selected st) st) = last_sw_state st
    \<and> select_pc (selected st) st = st\<lparr>i2c_writes := i2c_writes st @ [(OLATB, olatb st)]\<rparr>"
proof -
  have led: "olatb st = 0xFF - 2 ^ nat (selected st)"
    using reachable_inv [OF assms(1)] assms(2) by (simp add: led_inv_def pcs_fields)
  have sp: "select_pc (selected st) st = update_leds st"
    using assms(2) by (simp add: select_pc_eq)
  have nn: "\<not> selected st < 0" using assms(2) by (simp add: valid_port_def)
  have "update_leds st = st\<lparr>i2c_writes := i2c_writes st @ [(OLATB, olatb st)]\<rparr>"
    using led nn assms(2)
    by (simp add: update_leds_def set_led_only_def write8_def Let_def led_mask_valid olatb_def
        fun_upd_idem)
  with sp have eq: "select_pc (selected st) st
      = st\<lparr>i2c_writes := i2c_writes st @ [(OLATB, olatb st)]\<rparr>" by simp
  show ?thesis
    unfolding eq by (simp add: olatb_def)
qed

theorem reselect_is_noop_witness:
  "reachable (select_pc 4 (Usb8Selector_init 255 boot0))
    \<and> valid_port (selected (select_pc 4 (Usb8Selector_init 255 boot0)))
    \<and> pins (select_pc 4 (select_pc 4 (Usb8Selector_init 255 boot0)))
        = pins (select_pc 4 (Usb8Selector_init 255 boot0))
    \<and> olatb (select_pc 4 (select_pc 4 (Usb8Selector_init 255 boot0)))
        = olatb (select_pc 4 (Usb8Selector_init 255 boot0))"
proof -
  let ?s = "select_pc 4 (Usb8Selector_init 255 boot0)"
  have h: "reachable ?s" by (intro reach_select reach_init)
  have s: "selected ?s = 4" by (simp add: select_pc_selected valid_port_def)
  then have v: "valid_port (selected ?s)" by (simp add: valid_port_def)
  from reselect_is_noop [OF h v] h v show ?thesis
    unfolding s by blast
qed

text \<open>
  Claim C9. Running \<^verbatim>\<open>disconnect\<close> twice leaves the pins, the selection, the expander
  registers with the LED byte, and \<open>last_sw_state\<close> as running it once does. After it no
  port is selected, all four route devices are disabled, the LED byte is 0xFF and no port's
  supply line is asserted.
\<close>

theorem disconnect_idempotent:
  "pins (disconnect (disconnect st)) = pins (disconnect st)
   \<and> selected (disconnect (disconnect st)) = selected (disconnect st)
   \<and> mcp_regs (disconnect (disconnect st)) = mcp_regs (disconnect st)
   \<and> olatb (disconnect (disconnect st)) = olatb (disconnect st)
   \<and> last_sw_state (disconnect (disconnect st)) = last_sw_state (disconnect st)
   \<and> selected (disconnect st) = - 1 \<and> all_disabled (disconnect st)
   \<and> olatb (disconnect st) = 0xFF
   \<and> (\<forall>p. \<not> power_on (disconnect st) p)"
proof -
  have eq: "disconnect st = st\<lparr>pins := (pins st)(0 := 1, 2 := 1, 6 := 1, 19 := 1),
      mcp_regs := (mcp_regs st)(OLATB := 0xFF),
      i2c_writes := i2c_writes st @ [(OLATB, 0xFF)], selected := - 1\<rparr>" for st
    by (simp add: disconnect_def disconnect_steps_def disconnect_all_steps_def dev_defs
        step_defs update_leds_def set_led_only_def write8_def)
  have a: "pins (disconnect (disconnect st)) = pins (disconnect st)"
    "selected (disconnect (disconnect st)) = selected (disconnect st)"
    "mcp_regs (disconnect (disconnect st)) = mcp_regs (disconnect st)"
    "olatb (disconnect (disconnect st)) = olatb (disconnect st)"
    "last_sw_state (disconnect (disconnect st)) = last_sw_state (disconnect st)"
    by (simp_all add: eq olatb_def)
  have b: "selected (disconnect st) = - 1" "all_disabled (disconnect st)"
    "olatb (disconnect st) = 0xFF"
    by (simp_all add: eq olatb_def obs_defs dev_defs)
  from b(2) have "\<forall>p. \<not> power_on (disconnect st) p"
    by (simp add: power_on_def all_disabled_def hc_disabled_def hc_enabled_def)
  with a b show ?thesis by blast
qed

text \<open>
  Claim C10. For every integer argument, \<^verbatim>\<open>PI3USB14.select\<close> leaves S1,S0 at levels 0
  or 1 that encode the argument clamped into 0..3, and \<^verbatim>\<open>HC137.select_addr\<close> leaves
  A2..A0 at levels 0 or 1 that encode the argument clamped into 0..7. Both operations are
  total: they have no failing branch.
\<close>

theorem select_lines_clamped:
  "mux_value muxA (run (PI3USB14_select muxA x) st) = max 0 (min 3 x)
   \<and> mux_value muxB (run (PI3USB14_select muxB x) st) = max 0 (min 3 x)
   \<and> pins (run (PI3USB14_select muxA x) st) (s0_pin muxA) \<in> {0, 1}
   \<and> pins (run (PI3USB14_select muxA x) st) (s1_pin muxA) \<in> {0, 1}
   \<and> pins (run (PI3USB14_select muxB x) st) (s0_pin muxB) \<in> {0, 1}
   \<and> pins (run (PI3USB14_select muxB x) st) (s1_pin muxB) \<in> {0, 1}
   \<and> 0 \<le> mux_value muxA (run (PI3USB14_select muxA x) st)
   \<and> mux_value muxA (run (PI3USB14_select muxA x) st) \<le> 3
   \<and> 0 \<le> mux_value muxB (run (PI3USB14_select muxB x) st)
   \<and> mux_value muxB (run (PI3USB14_select muxB x) st) \<le> 3
   \<and> hc_address (run (HC137_select_addr hc137 y) st) = max 0 (min 7 y)
   \<and> pins (run (HC137_select_addr hc137 y) st) (a0 hc137) \<in> {0, 1}
   \<and> pins (run (HC137_select_addr hc137 y) st) (a1 hc137) \<in> {0, 1}
   \<and> pins (run (HC137_select_addr hc137 y) st) (a2 hc137) \<in> {0, 1}
   \<and> 0 \<le> hc_address (run (HC137_select_addr hc137 y) st)
   \<and> hc_address (run (HC137_select_addr hc137 y) st) \<le> 7"
proof -
  have m: "0 \<le> max 0 (min 3 x)" "max 0 (min 3 x) \<le> 3" by simp_all
  have h: "0 \<le> max 0 (min 7 y)" "max 0 (min 7 y) \<le> 7" by simp_all
  have bit01: "(z::int) AND 1 \<in> {0, 1}" for z
    by (simp add: and_one_eq) presburger
  have mA: "mux_value muxA (run (PI3USB14_select muxA x) st) = max 0 (min 3 x)"
    using bits2 [OF m] by (simp add: mux_value_def PI3USB14_select_def muxA_def pins_step Let_def)
  have mB: "mux_value muxB (run (PI3USB14_select muxB x) st) = max 0 (min 3 x)"
    using bits2 [OF m] by (simp add: mux_value_def PI3USB14_select_def muxB_def pins_step Let_def)
  have hA: "hc_address (run (HC137_select_addr hc137 y) st) = max 0 (min 7 y)"
    using bits3 [OF h]
    by (simp add: hc_address_def HC137_select_addr_def hc137_def pins_step Let_def)
  have lines: "pins (run (PI3USB14_select muxA x) st) (s0_pin muxA) \<in> {0, 1}"
    "pins (run (PI3USB14_select muxA x) st) (s1_pin muxA) \<in> {0, 1}"
    "pins (run (PI3USB14_select muxB x) st) (s0_pin muxB) \<in> {0, 1}"
    "pins (run (PI3USB14_select muxB x) st) (s1_pin muxB) \<in> {0, 1}"
    "pins (run (HC137_select_addr hc137 y) st) (a0 hc137) \<in> {0, 1}"
    "pins (run (HC137_select_addr hc137 y) st) (a1 hc137) \<in> {0, 1}"
    "pins (run (HC137_select_addr hc137 y) st) (a2 hc137) \<in> {0, 1}"
    using bit01
    by (simp_all add: PI3USB14_select_def HC137_select_addr_def muxA_def muxB_def hc137_def
        pins_step Let_def del: insert_iff)
  from m h mA mB hA lines show ?thesis by simp
qed

end
